theory Spec2Isabelle
  imports Complex_Main "HOL-Library.Multiset"
begin

section \<open>Errors and numeric arrays\<close>

text \<open>
  The exceptions the aggregation and attack code can raise. None of the classes of the
  notebooks defines or raises an exception of its own: every failure comes from a tuple or
  list index (\<open>IndexError\<close>) or from the array and random libraries (\<open>ValueError\<close>).
\<close>

datatype py_error = IndexError | ValueError

text \<open>
  A parameter block is a numeric array; it is kept as the list of its entries, so the
  dimension of a block is its length. One node's model parameters are the list of its
  blocks (one per layer). Entries are real numbers: arithmetic is exact.
\<close>

type_synonym block = "real list"
type_synonym model_params = "block list"

text \<open>
  \<open>shape[i]\<close> on a shape tuple, and \<open>xs[i]\<close> on a list with a non-negative index.
\<close>

definition index :: "'a list \<Rightarrow> nat \<Rightarrow> py_error + 'a" where
  "index xs i = (if i < length xs then Inr (xs ! i) else Inl IndexError)"

text \<open>
  The leading dimensions of \<open>np.array(clients_params)\<close>. The array has a second axis
  exactly when there is at least one client and all clients hold the same number of blocks;
  a ragged or empty list gives a one-dimensional array.
\<close>

definition np_array_shape :: "'a list list \<Rightarrow> nat list" where
  "np_array_shape clients_params =
     (if clients_params \<noteq> [] \<and>
         list_all (\<lambda>c. length c = length (hd clients_params)) clients_params
      then [length clients_params, length (hd clients_params)]
      else [length clients_params])"

text \<open>
  Elementwise addition of two blocks as the array library does it: equal dimensions add
  entry by entry, a block of dimension one is broadcast against the other, and any other
  pair of dimensions is refused.
\<close>

definition np_add :: "block \<Rightarrow> block \<Rightarrow> py_error + block" where
  "np_add a b =
     (if length a = length b then Inr (map2 (+) a b)
      else if length a = 1 then Inr (map (\<lambda>y. hd a + y) b)
      else if length b = 1 then Inr (map (\<lambda>x. x + hd b) a)
      else Inl ValueError)"

fun np_add_reduce :: "block \<Rightarrow> block list \<Rightarrow> py_error + block" where
  "np_add_reduce acc [] = Inr acc"
| "np_add_reduce acc (b # bs) =
     (case np_add acc b of Inl e \<Rightarrow> Inl e | Inr s \<Rightarrow> np_add_reduce s bs)"

text \<open>
  \<open>np.sum(column, axis=0)\<close> and \<open>np.mean(column, axis=0)\<close> over the blocks that the
  clients hold at one layer. The column is never empty where the aggregators call them
  (an empty client list fails earlier, at \<open>shape[1]\<close>).
\<close>

definition np_sum_axis0 :: "block list \<Rightarrow> py_error + block" where
  "np_sum_axis0 col = (case col of [] \<Rightarrow> Inr [] | b # bs \<Rightarrow> np_add_reduce b bs)"

definition np_mean_axis0 :: "block list \<Rightarrow> py_error + block" where
  "np_mean_axis0 col =
     (case np_sum_axis0 col of
        Inl e \<Rightarrow> Inl e
      | Inr s \<Rightarrow> Inr (map (\<lambda>x. x / real (length col)) s))"

text \<open>
  A list comprehension whose body can raise: the first failure ends it.
\<close>

fun collect :: "(py_error + 'a) list \<Rightarrow> py_error + 'a list" where
  "collect [] = Inr []"
| "collect (r # rs) =
     (case r of
        Inl e \<Rightarrow> Inl e
      | Inr v \<Rightarrow> (case collect rs of Inl e \<Rightarrow> Inl e | Inr vs \<Rightarrow> Inr (v # vs)))"

section \<open>Aggregation operators\<close>

text \<open>
  \<open>FedAvgAggregator.aggregate_weights\<close>: the mean over the clients, layer by layer.
\<close>

definition FedAvg_aggregate_weights :: "model_params list \<Rightarrow> py_error + model_params" where
  "FedAvg_aggregate_weights clients_params =
     (let shape = np_array_shape clients_params in
      case index shape 0 of
        Inl e \<Rightarrow> Inl e
      | Inr num_clients \<Rightarrow>
      (case index shape 1 of
        Inl e \<Rightarrow> Inl e
      | Inr num_layers \<Rightarrow>
          collect (map (\<lambda>layer. np_mean_axis0 (map (\<lambda>c. c ! layer) clients_params))
                       [0..<num_layers])))"

text \<open>
  \<open>WeightedFedAvgAggregator.aggregate_weights\<close>: every client's blocks are multiplied by
  \<open>self._percentage[client]\<close>, then summed layer by layer. The attribute \<open>_percentage\<close>
  (set by the constructor of the base class, a sequence of numbers) is the first argument
  here. Nothing in the method divides by the sum of the weights.
\<close>

definition WeightedFedAvg_aggregate_weights ::
    "real list \<Rightarrow> model_params list \<Rightarrow> py_error + model_params" where
  "WeightedFedAvg_aggregate_weights percentage clients_params =
     (let shape = np_array_shape clients_params in
      case index shape 0 of
        Inl e \<Rightarrow> Inl e
      | Inr num_clients \<Rightarrow>
      (case index shape 1 of
        Inl e \<Rightarrow> Inl e
      | Inr num_layers \<Rightarrow>
      (case collect (map (\<lambda>client.
                       case index percentage client of
                         Inl e \<Rightarrow> Inl e
                       | Inr p \<Rightarrow> Inr (map (map ((*) p)) (clients_params ! client)))
                     [0..<num_clients]) of
        Inl e \<Rightarrow> Inl e
      | Inr ponderated_weights \<Rightarrow>
          collect (map (\<lambda>layer. np_sum_axis0 (map (\<lambda>c. c ! layer) ponderated_weights))
                       [0..<num_layers]))))"

text \<open>
  Per-node parameter sets of identical shape: every node has the blocks of the first node,
  dimension by dimension.
\<close>

definition identical_shape :: "model_params list \<Rightarrow> bool" where
  "identical_shape clients_params =
     list_all (\<lambda>c. map length c = map length (hd clients_params)) clients_params"

text \<open>
  The elementwise arithmetic mean of the clients' blocks, written from the formula
  \<open>W = (1 / n) * sum of the W_i\<close>: block \<open>l\<close>, entry \<open>k\<close> of the result is the
  sum over the clients of their entry at \<open>l\<close>, \<open>k\<close>, divided by the number of clients.
\<close>

definition arithmetic_mean :: "model_params list \<Rightarrow> model_params" where
  "arithmetic_mean clients_params =
     map (\<lambda>l. map (\<lambda>k. (\<Sum>c\<leftarrow>clients_params. c ! l ! k) / real (length clients_params))
                 [0..<length (hd clients_params ! l)])
         [0..<length (hd clients_params)]"

text \<open>
  The weighted sum of the clients' blocks, written from the formula
  \<open>W = sum of (n_i / n) * W_i\<close> with the weights as they are given.
\<close>

definition weighted_sum :: "real list \<Rightarrow> model_params list \<Rightarrow> model_params" where
  "weighted_sum w clients_params =
     map (\<lambda>l. map (\<lambda>k. (\<Sum>i\<leftarrow>[0..<length clients_params]. w ! i * clients_params ! i ! l ! k))
                 [0..<length (hd clients_params ! l)])
         [0..<length (hd clients_params)]"

subsection \<open>Cluster aggregation\<close>

text \<open>
  A centroid is a point; one node's centroid set is a two-dimensional array, kept as the
  list of its rows.
\<close>

type_synonym point = "real list"
type_synonym centroids = "point list"

text \<open>
  \<open>np.concatenate\<close> along the first axis: it refuses an empty sequence of arrays and
  arrays whose rows differ in length.
\<close>

definition np_concatenate :: "centroids list \<Rightarrow> py_error + centroids" where
  "np_concatenate arrays =
     (if arrays = [] then Inl ValueError
      else if \<not> list_all (\<lambda>p. length p = length (hd (concat arrays))) (concat arrays)
        then Inl ValueError
      else Inr (concat arrays))"

text \<open>
  The \<open>KMeans\<close> estimator of the clustering library, as far as the aggregator touches it:
  the two constructor arguments it passes, the seed argument \<open>random_state\<close> that it does
  not pass, and the attribute it reads after fitting.
\<close>

record KMeans =
  n_clusters :: nat
  init :: string
  random_state :: "nat option"
  cluster_centers :: centroids

text \<open>
  The constructor call \<open>KMeans(n_clusters=n_clusters, init='k-means++')\<close>: every argument
  that is not passed keeps the library's default, which for \<open>random_state\<close> is \<open>None\<close>
  (the estimator then draws from the global random generator). Nothing is fitted yet.
\<close>

definition KMeans_init :: "nat \<Rightarrow> string \<Rightarrow> KMeans" where
  "KMeans_init n i = \<lparr>n_clusters = n, init = i, random_state = None, cluster_centers = []\<rparr>"

text \<open>
  The estimator \<open>model_aggregator\<close> that \<open>aggregate_weights\<close> builds from its only argument.
\<close>

definition ClusterFedAvg_model_aggregator :: "centroids list \<Rightarrow> KMeans" where
  "ClusterFedAvg_model_aggregator clients_params =
     KMeans_init (length (hd clients_params)) ''k-means++''"

text \<open>
  \<open>ClusterFedAvgAggregator.aggregate_weights\<close>. The estimator's \<open>fit\<close> belongs to the
  clustering library and is a parameter: it takes the estimator, the points, and the state
  of the global random generator, and returns the fitted estimator or an error, and the
  generator's state afterwards. The method has no argument besides the clients' centroid
  sets.
\<close>

definition ClusterFedAvg_aggregate_weights ::
    "(KMeans \<Rightarrow> centroids \<Rightarrow> 'g \<Rightarrow> (py_error + KMeans) \<times> 'g) \<Rightarrow>
     centroids list \<Rightarrow> 'g \<Rightarrow> (py_error + centroids) \<times> 'g" where
  "ClusterFedAvg_aggregate_weights fit clients_params g =
     (case np_concatenate clients_params of
        Inl e \<Rightarrow> (Inl e, g)
      | Inr clients_params_array \<Rightarrow>
          (let model_aggregator = ClusterFedAvg_model_aggregator clients_params
           in case fit model_aggregator clients_params_array g of
                (Inl e, g') \<Rightarrow> (Inl e, g')
              | (Inr fitted, g') \<Rightarrow> (Inr (cluster_centers fitted), g')))"

section \<open>Data poisoning attack\<close>

subsection \<open>The random module\<close>

text \<open>
  The state of Python's global random generator is the sequence of raw numbers it will
  still produce. \<open>randbelow n\<close> (called with \<open>n > 0\<close> only) takes the next raw number and
  returns a value below \<open>n\<close>; every sequence of results the generator can give comes from
  some state.
\<close>

type_synonym rng = "nat \<Rightarrow> nat"

definition randbelow :: "nat \<Rightarrow> rng \<Rightarrow> nat \<times> rng" where
  "randbelow n g = (g 0 mod n, \<lambda>k. g (Suc k))"

text \<open>
  The sequences the attack shuffles are Python lists or NumPy arrays. Reading an item of a
  list or of a one-dimensional array gives the item's value. Reading an item of an array
  of two or more dimensions (one-hot labels: one row per sample) gives a view of that
  row: it shows the row's current content, also after a later assignment to the row.
\<close>

datatype 'a py_sequence = Values "'a list" | Rows "'a list"

fun items :: "'a py_sequence \<Rightarrow> 'a list" where
  "items (Values x) = x"
| "items (Rows x) = x"

text \<open>
  The statement \<open>x[i], x[j] = x[j], x[i]\<close>: the right-hand side is read first (\<open>x[j]\<close>,
  then \<open>x[i]\<close>), then \<open>x[i]\<close> and \<open>x[j]\<close> are assigned in this order. On values the
  two items change places. On row views the second assignment copies what row \<open>i\<close> holds
  after the first one.
\<close>

fun exchange :: "nat \<Rightarrow> nat \<Rightarrow> 'a py_sequence \<Rightarrow> 'a py_sequence" where
  "exchange i j (Values x) =
     (let xj = x ! j; xi = x ! i; x1 = x[i := xj] in Values (x1[j := xi]))"
| "exchange i j (Rows x) =
     (let x1 = x[i := x ! j] in Rows (x1[j := x1 ! i]))"

text \<open>
  \<open>random.shuffle(x)\<close>: for \<open>i\<close> from \<open>len(x) - 1\<close> down to \<open>1\<close>, draw \<open>j\<close> below \<open>i + 1\<close>
  and exchange \<open>x[i]\<close> and \<open>x[j]\<close>. The first argument of the loop is the current \<open>i\<close>.
\<close>

fun shuffle_loop :: "nat \<Rightarrow> 'a py_sequence \<Rightarrow> rng \<Rightarrow> 'a py_sequence \<times> rng" where
  "shuffle_loop 0 x g = (x, g)"
| "shuffle_loop (Suc m) x g =
     (case randbelow (Suc (Suc m)) g of
        (j, g') \<Rightarrow> shuffle_loop m (exchange (Suc m) j x) g')"

definition random_shuffle :: "'a py_sequence \<Rightarrow> rng \<Rightarrow> 'a py_sequence \<times> rng" where
  "random_shuffle x g = shuffle_loop (length (items x) - 1) x g"

text \<open>
  \<open>random.sample(population, k)\<close> on a population of at most 21 elements, where the
  library always selects from a pool: it refuses \<open>k\<close> outside \<open>0..n\<close>, and otherwise draws
  \<open>k\<close> times, moving the pool's last live element into the place of the one drawn. (On
  larger populations the library may select by a set with redraws; that selection is not
  modelled, and nothing below uses this function on more than 21 elements.)
\<close>

fun sample_loop :: "nat \<Rightarrow> nat \<Rightarrow> 'a list \<Rightarrow> rng \<Rightarrow> 'a list \<times> rng" where
  "sample_loop 0 m pool g = ([], g)"
| "sample_loop (Suc k) m pool g =
     (case randbelow m g of
        (j, g1) \<Rightarrow>
          (case sample_loop k (m - 1) (pool[j := pool ! (m - 1)]) g1 of
             (result, g2) \<Rightarrow> (pool ! j # result, g2)))"

definition random_sample_pool :: "'a list \<Rightarrow> int \<Rightarrow> rng \<Rightarrow> (py_error + 'a list) \<times> rng" where
  "random_sample_pool population k g =
     (if \<not> (0 \<le> k \<and> k \<le> int (length population)) then (Inl ValueError, g)
      else case sample_loop (nat k) (length population) population g of
             (result, g') \<Rightarrow> (Inr result, g'))"

subsection \<open>Labeled data and nodes\<close>

record ('d, 'l) labeled_data =
  data :: 'd
  label :: "'l py_sequence"

text \<open>
  \<open>ShuffleNode.apply\<close>: shuffles the label sequence in place and leaves the rest alone.
\<close>

definition ShuffleNode_apply ::
    "('d, 'l) labeled_data \<Rightarrow> rng \<Rightarrow> ('d, 'l) labeled_data \<times> rng" where
  "ShuffleNode_apply ld g =
     (case random_shuffle (label ld) g of (shuffled, g') \<Rightarrow> (ld\<lparr>label := shuffled\<rparr>, g'))"

text \<open>
  Modelled from the spec: the access gate and query result of a node (the classes of
  \<open>shfl.private\<close> are not among the files; the notebooks only call them). A filter decides
  per query and value whether the value, or a transformed value, is returned or the query
  is denied; the default filter passes values through unchanged.
\<close>

datatype 'v access = Ok 'v | Denied string

type_synonym ('q, 'v) privacy_filter = "'q \<Rightarrow> 'v \<Rightarrow> 'v access"

definition unprotected :: "('q, 'v) privacy_filter" where
  "unprotected q v = Ok v"

text \<open>
  Modelled from the spec: a \<open>DataNode\<close> owns its private labeled data and its access gate
  with the currently configured filter.
\<close>

record ('d, 'l, 'q) data_node =
  private_data :: "('d, 'l) labeled_data"
  access_filter :: "('q, ('d, 'l) labeled_data) privacy_filter"

text \<open>
  Modelled from the spec: \<open>DataNode.apply_data_transformation(t)\<close> calls \<open>t.apply\<close> on the
  node's private data, which is changed in place. A transformation takes the data and the
  ambient state it may use (the random generator for \<open>ShuffleNode\<close>) and returns both.
\<close>

definition apply_data_transformation ::
    "(('d, 'l) labeled_data \<Rightarrow> 's \<Rightarrow> ('d, 'l) labeled_data \<times> 's) \<Rightarrow>
     ('d, 'l, 'q) data_node \<Rightarrow> 's \<Rightarrow> ('d, 'l, 'q) data_node \<times> 's" where
  "apply_data_transformation t node s =
     (case t (private_data node) s of (d', s') \<Rightarrow> (node\<lparr>private_data := d'\<rparr>, s'))"

text \<open>
  Modelled from the spec: \<open>DataNode.query(q)\<close> delegates to the access gate, which runs the
  configured filter on the private data and never changes it.
\<close>

definition query :: "'q \<Rightarrow> ('d, 'l, 'q) data_node \<Rightarrow> ('d, 'l) labeled_data access" where
  "query q node = access_filter node q (private_data node)"

text \<open>
  Modelled from the spec: \<open>apply_federated_transformation(federated_data, t)\<close> applies the
  transformation to every node, in collection order.
\<close>

fun apply_federated_transformation ::
    "(('d, 'l) labeled_data \<Rightarrow> 's \<Rightarrow> ('d, 'l) labeled_data \<times> 's) \<Rightarrow>
     ('d, 'l, 'q) data_node list \<Rightarrow> 's \<Rightarrow> ('d, 'l, 'q) data_node list \<times> 's" where
  "apply_federated_transformation t [] s = ([], s)"
| "apply_federated_transformation t (node # nodes) s =
     (case apply_data_transformation t node s of
        (node', s1) \<Rightarrow>
          (case apply_federated_transformation t nodes s1 of
             (nodes', s2) \<Rightarrow> (node' # nodes', s2)))"

subsection \<open>The attack\<close>


record FederatedPoisoningDataAttack =
  percentage :: real
  adversaries :: "nat list"




section \<open>Properties of the aggregation operators\<close>


lemma collect_map_Inr:
  "(\<And>x. x \<in> set xs \<Longrightarrow> f x = Inr (g x)) \<Longrightarrow> collect (map f xs) = Inr (map g xs)"
  by (induction xs) simp_all

lemma np_add_same_length:
  "length a = length b \<Longrightarrow> np_add a b = Inr (map (\<lambda>k. a ! k + b ! k) [0..<length a])"
  by (auto simp: np_add_def intro!: nth_equalityI)

lemma np_add_reduce_same_length:
  "length acc = d \<Longrightarrow> (\<And>b. b \<in> set bs \<Longrightarrow> length b = d) \<Longrightarrow>
   np_add_reduce acc bs = Inr (map (\<lambda>k. acc ! k + (\<Sum>b\<leftarrow>bs. b ! k)) [0..<d])"
proof (induction bs arbitrary: acc)
  case Nil
  then show ?case by (auto intro!: nth_equalityI)
next
  case (Cons b bs)
  have lb: "length b = d" using Cons.prems(2) by simp
  let ?s = "map (\<lambda>k. acc ! k + b ! k) [0..<d]"
  have step: "np_add acc b = Inr ?s"
    using np_add_same_length [of acc b] Cons.prems(1) lb by simp
  have "np_add_reduce ?s bs = Inr (map (\<lambda>k. ?s ! k + (\<Sum>b\<leftarrow>bs. b ! k)) [0..<d])"
    by (rule Cons.IH) (simp_all add: Cons.prems(2))
  then show ?case using step by (simp add: add.assoc)
qed

lemma np_sum_axis0_same_length:
  "col \<noteq> [] \<Longrightarrow> (\<And>b. b \<in> set col \<Longrightarrow> length b = d) \<Longrightarrow>
   np_sum_axis0 col = Inr (map (\<lambda>k. (\<Sum>b\<leftarrow>col. b ! k)) [0..<d])"
proof (cases col)
  case Nil
  assume "col \<noteq> []" then show ?thesis using Nil by simp
next
  case (Cons b bs)
  assume len: "\<And>b. b \<in> set col \<Longrightarrow> length b = d"
  have "np_add_reduce b bs = Inr (map (\<lambda>k. b ! k + (\<Sum>b\<leftarrow>bs. b ! k)) [0..<d])"
    by (rule np_add_reduce_same_length) (simp_all add: len Cons)
  then show ?thesis by (simp add: np_sum_axis0_def Cons)
qed

lemma np_mean_axis0_same_length:
  "col \<noteq> [] \<Longrightarrow> (\<And>b. b \<in> set col \<Longrightarrow> length b = d) \<Longrightarrow>
   np_mean_axis0 col = Inr (map (\<lambda>k. (\<Sum>b\<leftarrow>col. b ! k) / real (length col)) [0..<d])"
  by (simp add: np_mean_axis0_def np_sum_axis0_same_length [of col d])

lemma identical_shape_length:
  "identical_shape cs \<Longrightarrow> c \<in> set cs \<Longrightarrow> length c = length (hd cs)"
proof -
  assume "identical_shape cs" "c \<in> set cs"
  then have "map length c = map length (hd cs)"
    by (simp add: identical_shape_def list_all_iff)
  then show ?thesis by (rule map_eq_imp_length_eq)
qed

lemma identical_shape_block:
  "identical_shape cs \<Longrightarrow> c \<in> set cs \<Longrightarrow> l < length (hd cs) \<Longrightarrow>
   length (c ! l) = length (hd cs ! l)"
proof -
  assume a: "identical_shape cs" "c \<in> set cs" "l < length (hd cs)"
  then have m: "map length c = map length (hd cs)"
    by (simp add: identical_shape_def list_all_iff)
  then have "length c = length (hd cs)" using map_eq_imp_length_eq by blast
  then have "map length c ! l = length (c ! l)" "map length (hd cs) ! l = length (hd cs ! l)"
    using a(3) by simp_all
  then show ?thesis using m by simp
qed

lemma np_array_shape_identical:
  "cs \<noteq> [] \<Longrightarrow> identical_shape cs \<Longrightarrow> np_array_shape cs = [length cs, length (hd cs)]"
proof -
  assume a: "cs \<noteq> []" "identical_shape cs"
  have "list_all (\<lambda>c. length c = length (hd cs)) cs"
    unfolding list_all_iff using identical_shape_length [OF a(2)] by blast
  then show ?thesis using a(1) by (simp add: np_array_shape_def)
qed

lemma column_same_length:
  assumes "identical_shape cs" "l < length (hd cs)" "b \<in> set (map (\<lambda>c. c ! l) cs)"
  shows "length b = length (hd cs ! l)"
proof -
  from assms(3) obtain c where "c \<in> set cs" "b = c ! l" by auto
  then show ?thesis using identical_shape_block [OF assms(1) _ assms(2)] by blast
qed

lemma FedAvg_closed_form:
  assumes "cs \<noteq> []" "identical_shape cs"
  shows "FedAvg_aggregate_weights cs = Inr (arithmetic_mean cs)"
proof -
  have col: "np_mean_axis0 (map (\<lambda>c. c ! l) cs) =
      Inr (map (\<lambda>k. (\<Sum>c\<leftarrow>cs. c ! l ! k) / real (length cs)) [0..<length (hd cs ! l)])"
    if "l \<in> set [0..<length (hd cs)]" for l
  proof -
    have l: "l < length (hd cs)" using that by simp
    have ne: "map (\<lambda>c. c ! l) cs \<noteq> []" using assms(1) by simp
    have "np_mean_axis0 (map (\<lambda>c. c ! l) cs) =
      Inr (map (\<lambda>k. (\<Sum>b\<leftarrow>map (\<lambda>c. c ! l) cs. b ! k) / real (length (map (\<lambda>c. c ! l) cs)))
        [0..<length (hd cs ! l)])"
      using ne column_same_length [OF assms(2) l] by (rule np_mean_axis0_same_length)
    then show ?thesis by (simp add: comp_def)
  qed
  have "collect (map (\<lambda>l. np_mean_axis0 (map (\<lambda>c. c ! l) cs)) [0..<length (hd cs)]) =
      Inr (arithmetic_mean cs)"
    unfolding arithmetic_mean_def using col by (rule collect_map_Inr)
  then show ?thesis
    by (simp add: FedAvg_aggregate_weights_def np_array_shape_identical [OF assms] index_def)
qed


text \<open>
  C1. For every non-empty list of per-node parameter sets of identical shape, Mean
  aggregation returns, block by block and entry by entry, the arithmetic mean over the
  nodes: \<open>(1 / n) * sum of the W_i\<close>. The aggregate has the shape of a node's parameters.
\<close>

theorem FedAvg_aggregate_weights_mean:
  assumes "clients_params \<noteq> []" and "identical_shape clients_params"
  shows "\<exists>W. FedAvg_aggregate_weights clients_params = Inr W \<and>
             map length W = map length (hd clients_params) \<and>
             (\<forall>l<length W. \<forall>k<length (W ! l).
                W ! l ! k =
                  1 / real (length clients_params) * (\<Sum>c\<leftarrow>clients_params. c ! l ! k))"
proof -
  have "FedAvg_aggregate_weights clients_params = Inr (arithmetic_mean clients_params)"
    using assms by (rule FedAvg_closed_form)
  moreover have "map length (arithmetic_mean clients_params) = map length (hd clients_params)"
    by (rule nth_equalityI) (simp_all add: arithmetic_mean_def)
  moreover have "arithmetic_mean clients_params ! l ! k =
      1 / real (length clients_params) * (\<Sum>c\<leftarrow>clients_params. c ! l ! k)"
    if "l < length (arithmetic_mean clients_params)"
      and "k < length (arithmetic_mean clients_params ! l)" for l k
    using that by (simp add: arithmetic_mean_def)
  ultimately show ?thesis by blast
qed

theorem FedAvg_aggregate_weights_mean_witness:
  "[[[1, 2], [3]], [[3, 4], [5 :: real]]] \<noteq> [] \<and>
   identical_shape [[[1, 2], [3]], [[3, 4], [5]]] \<and>
   FedAvg_aggregate_weights [[[1, 2], [3]], [[3, 4], [5]]] = Inr [[2, 3], [4]]"
proof -
  have ne: "[[[1, 2], [3]], [[3, 4], [5 :: real]]] \<noteq> []" by simp
  have sh: "identical_shape [[[1, 2], [3]], [[3, 4], [5]]]"
    by (simp add: identical_shape_def)
  have "FedAvg_aggregate_weights [[[1, 2], [3]], [[3, 4], [5]]] = Inr [[2, 3], [4]]"
    using FedAvg_aggregate_weights_mean [OF ne sh]
    by (simp add: FedAvg_aggregate_weights_def np_array_shape_def index_def np_mean_axis0_def
        np_sum_axis0_def np_add_def)
  then show ?thesis using ne sh by simp
qed

lemma collect_index_weights:
  assumes "n \<le> length w"
  shows "collect (map (\<lambda>client. case index w client of
                         Inl e \<Rightarrow> Inl e
                       | Inr p \<Rightarrow> Inr (map (map ((*) p)) (cs ! client))) [0..<n]) =
         Inr (map (\<lambda>client. map (map ((*) (w ! client))) (cs ! client)) [0..<n])"
  using assms by (intro collect_map_Inr) (simp add: index_def)

lemma ponderated_column:
  assumes "identical_shape cs" and "l < length (hd cs)"
  shows "map (\<lambda>c. c ! l) (map (\<lambda>client. map (map ((*) (w ! client))) (cs ! client))
                               [0..<length cs]) =
         map (\<lambda>client. map ((*) (w ! client)) (cs ! client ! l)) [0..<length cs]"
proof -
  have "l < length (cs ! i)" if "i < length cs" for i
    using identical_shape_length [OF assms(1), of "cs ! i"] that assms(2) by simp
  then show ?thesis by simp
qed

lemma sum_list_nth_map:
  "k < d \<Longrightarrow> (\<And>i. i \<in> set is \<Longrightarrow> length (f i) = d) \<Longrightarrow>
   (\<Sum>b\<leftarrow>map (\<lambda>i. map (g i) (f i)) is. b ! k) = (\<Sum>i\<leftarrow>is. g i (f i ! k))"
  by (induction "is") simp_all

lemma WeightedFedAvg_closed_form:
  assumes "cs \<noteq> []" and "identical_shape cs" and "length cs \<le> length w"
  shows "WeightedFedAvg_aggregate_weights w cs = Inr (weighted_sum w cs)"
proof -
  let ?pw = "map (\<lambda>client. map (map ((*) (w ! client))) (cs ! client)) [0..<length cs]"
  have col: "np_sum_axis0 (map (\<lambda>c. c ! l) ?pw) =
      Inr (map (\<lambda>k. (\<Sum>i\<leftarrow>[0..<length cs]. w ! i * cs ! i ! l ! k)) [0..<length (hd cs ! l)])"
    if "l \<in> set [0..<length (hd cs)]" for l
  proof -
    let ?d = "length (hd cs ! l)"
    let ?col = "map (\<lambda>client. map ((*) (w ! client)) (cs ! client ! l)) [0..<length cs]"
    have l: "l < length (hd cs)" using that by simp
    have len: "length (cs ! i ! l) = ?d" if "i \<in> set [0..<length cs]" for i
      using identical_shape_block [OF assms(2) _ l, of "cs ! i"] that by simp
    have ne: "?col \<noteq> []" using assms(1) by simp
    have lens: "length b = ?d" if "b \<in> set ?col" for b
      using that len by auto
    have "np_sum_axis0 ?col = Inr (map (\<lambda>k. (\<Sum>b\<leftarrow>?col. b ! k)) [0..<?d])"
      using ne lens by (rule np_sum_axis0_same_length)
    also have "map (\<lambda>k. (\<Sum>b\<leftarrow>?col. b ! k)) [0..<?d] =
        map (\<lambda>k. (\<Sum>i\<leftarrow>[0..<length cs]. w ! i * cs ! i ! l ! k)) [0..<?d]"
    proof (rule map_cong [OF refl])
      fix k assume "k \<in> set [0..<?d]"
      then have k: "k < ?d" by simp
      show "(\<Sum>b\<leftarrow>?col. b ! k) = (\<Sum>i\<leftarrow>[0..<length cs]. w ! i * cs ! i ! l ! k)"
        using sum_list_nth_map [OF k, of "[0..<length cs]" "\<lambda>i. cs ! i ! l" "\<lambda>i. (*) (w ! i)"] len
        by simp
    qed
    finally show ?thesis by (simp only: ponderated_column [OF assms(2) l])
  qed
  have "collect (map (\<lambda>l. np_sum_axis0 (map (\<lambda>c. c ! l) ?pw)) [0..<length (hd cs)]) =
      Inr (weighted_sum w cs)"
    unfolding weighted_sum_def using col by (rule collect_map_Inr)
  then show ?thesis
    by (simp add: WeightedFedAvg_aggregate_weights_def np_array_shape_identical [OF assms(1,2)]
        index_def [of "[length cs, length (hd cs)]"] collect_index_weights [OF assms(3)])
qed

lemma sum_list_over_indices:
  "(\<Sum>i\<leftarrow>[0..<length cs]. f (cs ! i)) = (\<Sum>c\<leftarrow>cs. f c)"
proof -
  have "map (\<lambda>i. f (cs ! i)) [0..<length cs] = map f (map ((!) cs) [0..<length cs])"
    by simp
  then show ?thesis by (simp only: map_nth)
qed

lemma weighted_sum_uniform:
  "weighted_sum (replicate (length cs) (1 / real (length cs))) cs = arithmetic_mean cs"
proof -
  have "(\<Sum>i\<leftarrow>[0..<length cs]. replicate (length cs) (1 / real (length cs)) ! i * cs ! i ! l ! k) =
        (\<Sum>c\<leftarrow>cs. c ! l ! k) / real (length cs)" for l k
  proof -
    have "map (\<lambda>i. replicate (length cs) (1 / real (length cs)) ! i * cs ! i ! l ! k) [0..<length cs] =
          map (\<lambda>i. 1 / real (length cs) * (cs ! i ! l ! k)) [0..<length cs]"
      by (rule map_cong) simp_all
    then have "(\<Sum>i\<leftarrow>[0..<length cs]. replicate (length cs) (1 / real (length cs)) ! i * cs ! i ! l ! k) =
          (\<Sum>i\<leftarrow>[0..<length cs]. 1 / real (length cs) * (cs ! i ! l ! k))"
      by (rule arg_cong)
    also have "\<dots> = 1 / real (length cs) * (\<Sum>i\<leftarrow>[0..<length cs]. cs ! i ! l ! k)"
      by (rule sum_list_const_mult)
    also have "(\<Sum>i\<leftarrow>[0..<length cs]. cs ! i ! l ! k) = (\<Sum>c\<leftarrow>cs. c ! l ! k)"
      by (rule sum_list_over_indices [of "\<lambda>c. c ! l ! k"])
    finally show ?thesis by simp
  qed
  then show ?thesis by (simp add: weighted_sum_def arithmetic_mean_def)
qed

lemma weighted_sum_equal_weights:
  assumes "cs \<noteq> []"
  shows "weighted_sum (replicate (length cs) c) cs =
         map (map ((*) (real (length cs) * c))) (arithmetic_mean cs)"
proof -
  have n: "real (length cs) \<noteq> 0" using assms by simp
  have "(\<Sum>i\<leftarrow>[0..<length cs]. replicate (length cs) c ! i * cs ! i ! l ! k) =
        real (length cs) * c * ((\<Sum>c\<leftarrow>cs. c ! l ! k) / real (length cs))" for l k
  proof -
    have "map (\<lambda>i. replicate (length cs) c ! i * cs ! i ! l ! k) [0..<length cs] =
          map (\<lambda>i. c * (cs ! i ! l ! k)) [0..<length cs]"
      by (rule map_cong) simp_all
    then have "(\<Sum>i\<leftarrow>[0..<length cs]. replicate (length cs) c ! i * cs ! i ! l ! k) =
          (\<Sum>i\<leftarrow>[0..<length cs]. c * (cs ! i ! l ! k))"
      by (rule arg_cong)
    also have "\<dots> = c * (\<Sum>i\<leftarrow>[0..<length cs]. cs ! i ! l ! k)"
      by (rule sum_list_const_mult)
    also have "(\<Sum>i\<leftarrow>[0..<length cs]. cs ! i ! l ! k) = (\<Sum>c\<leftarrow>cs. c ! l ! k)"
      by (rule sum_list_over_indices [of "\<lambda>c. c ! l ! k"])
    finally show ?thesis using n by simp
  qed
  then show ?thesis by (simp add: weighted_sum_def arithmetic_mean_def comp_def)
qed

text \<open>
  C3, as amended. For every non-empty list of per-node parameter sets of identical shape,
  WeightedMean aggregation with uniform weights that sum to one (each node's weight is
  \<open>1 / n\<close>, as when all nodes hold the same amount of data) returns the aggregate of Mean
  aggregation. Uniform weights are not normalised: with every weight equal to \<open>c\<close> the
  aggregate is \<open>n * c\<close> times, entry by entry, the aggregate of Mean aggregation.
\<close>

theorem WeightedFedAvg_uniform_is_FedAvg:
  assumes "clients_params \<noteq> []" and "identical_shape clients_params"
  shows "WeightedFedAvg_aggregate_weights
           (replicate (length clients_params) (1 / real (length clients_params))) clients_params =
         FedAvg_aggregate_weights clients_params \<and>
         (\<exists>M. FedAvg_aggregate_weights clients_params = Inr M \<and>
              WeightedFedAvg_aggregate_weights (replicate (length clients_params) c) clients_params =
                Inr (map (map ((*) (real (length clients_params) * c))) M))"
proof -
  have w: "WeightedFedAvg_aggregate_weights (replicate (length clients_params) x) clients_params =
        Inr (weighted_sum (replicate (length clients_params) x) clients_params)" for x
    using assms by (intro WeightedFedAvg_closed_form) simp_all
  have m: "FedAvg_aggregate_weights clients_params = Inr (arithmetic_mean clients_params)"
    using assms by (rule FedAvg_closed_form)
  have one: "WeightedFedAvg_aggregate_weights
           (replicate (length clients_params) (1 / real (length clients_params))) clients_params =
         FedAvg_aggregate_weights clients_params"
    by (simp only: w weighted_sum_uniform m)
  have "WeightedFedAvg_aggregate_weights (replicate (length clients_params) c) clients_params =
      Inr (map (map ((*) (real (length clients_params) * c))) (arithmetic_mean clients_params))"
    by (simp only: w weighted_sum_equal_weights [OF assms(1)])
  then show ?thesis using one m by blast
qed

theorem WeightedFedAvg_uniform_is_FedAvg_witness:
  "[[[1, 2], [3]], [[3, 4], [5 :: real]]] \<noteq> [] \<and>
   identical_shape [[[1, 2], [3]], [[3, 4], [5]]] \<and>
   WeightedFedAvg_aggregate_weights [1 / 2, 1 / 2] [[[1, 2], [3]], [[3, 4], [5]]] =
     Inr [[2, 3], [4]] \<and>
   FedAvg_aggregate_weights [[[1, 2], [3]], [[3, 4], [5]]] = Inr [[2, 3], [4]] \<and>
   WeightedFedAvg_aggregate_weights [3, 3] [[[1, 2], [3]], [[3, 4], [5]]] =
     Inr [[2 * 3 * 2, 2 * 3 * 3], [2 * 3 * 4]]"
proof -
  have ne: "[[[1, 2], [3]], [[3, 4], [5 :: real]]] \<noteq> []" by simp
  have sh: "identical_shape [[[1, 2], [3]], [[3, 4], [5]]]"
    by (simp add: identical_shape_def)
  have m: "FedAvg_aggregate_weights [[[1, 2], [3]], [[3, 4], [5]]] = Inr [[2, 3], [4]]"
    by (simp add: FedAvg_aggregate_weights_def np_array_shape_def index_def np_mean_axis0_def
        np_sum_axis0_def np_add_def)
  have r: "replicate (length [[[1, 2], [3]], [[3, 4], [5 :: real]]]) x = [x, x]" for x :: real
    by (simp add: numeral_2_eq_2)
  have l: "real (length [[[1, 2], [3]], [[3, 4], [5 :: real]]]) = 2" by simp
  note th = WeightedFedAvg_uniform_is_FedAvg [OF ne sh, of 3]
  have a: "WeightedFedAvg_aggregate_weights [1 / 2, 1 / 2] [[[1, 2], [3]], [[3, 4], [5]]] =
      Inr [[2, 3], [4]]"
    using th [THEN conjunct1] unfolding l r m .
  obtain M where "FedAvg_aggregate_weights [[[1, 2], [3]], [[3, 4], [5]]] = Inr M"
    and "WeightedFedAvg_aggregate_weights [3, 3] [[[1, 2], [3]], [[3, 4], [5]]] =
      Inr (map (map ((*) (2 * 3))) M)"
    using th [THEN conjunct2] unfolding l r by blast
  then have b: "WeightedFedAvg_aggregate_weights [3, 3] [[[1, 2], [3]], [[3, 4], [5]]] =
      Inr [[2 * 3 * 2, 2 * 3 * 3], [2 * 3 * 4]]"
    unfolding m by auto
  show ?thesis using ne sh a m b by blast
qed

text \<open>
  C3, as the claim states it, fails: with the uniform weights \<open>[1, 1]\<close> on two nodes
  whose only entries are \<open>1\<close> and \<open>3\<close>, WeightedMean aggregation returns \<open>4\<close> and Mean
  aggregation returns \<open>2\<close>.
\<close>

theorem WeightedFedAvg_uniform_counterexample:
  "WeightedFedAvg_aggregate_weights [1, 1] [[[1]], [[3]]] = Inr [[4]] \<and>
   FedAvg_aggregate_weights [[[1]], [[3]]] = Inr [[2]] \<and>
   WeightedFedAvg_aggregate_weights [1, 1] [[[1]], [[3]]] \<noteq>
     FedAvg_aggregate_weights [[[1]], [[3]]]"
  by (simp add: WeightedFedAvg_aggregate_weights_def FedAvg_aggregate_weights_def
      np_array_shape_def index_def np_mean_axis0_def np_sum_axis0_def np_add_def)

lemma weighted_sum_scale:
  assumes "length cs \<le> length w" and "s \<noteq> 0"
  shows "weighted_sum w cs = map (map ((*) s)) (weighted_sum (map (\<lambda>x. x / s) w) cs)"
proof -
  have "(\<Sum>i\<leftarrow>[0..<length cs]. w ! i * cs ! i ! l ! k) =
        s * (\<Sum>i\<leftarrow>[0..<length cs]. map (\<lambda>x. x / s) w ! i * cs ! i ! l ! k)" for l k
  proof -
    have "map (\<lambda>i. w ! i * cs ! i ! l ! k) [0..<length cs] =
          map (\<lambda>i. s * (map (\<lambda>x. x / s) w ! i * cs ! i ! l ! k)) [0..<length cs]"
      using assms by (intro map_cong) simp_all
    then have "(\<Sum>i\<leftarrow>[0..<length cs]. w ! i * cs ! i ! l ! k) =
          (\<Sum>i\<leftarrow>[0..<length cs]. s * (map (\<lambda>x. x / s) w ! i * cs ! i ! l ! k))"
      by (rule arg_cong)
    then show ?thesis by (simp only: sum_list_const_mult)
  qed
  then show ?thesis by (simp add: weighted_sum_def comp_def)
qed

text \<open>
  C2, as amended. WeightedMean aggregation uses the weights as they are given and does not
  normalise them: for every non-empty list of per-node parameter sets of identical shape
  and every weight vector \<open>w\<close> (one weight per node) with positive sum, the aggregate
  with \<open>w\<close> is \<open>sum(w)\<close> times, entry by entry, the aggregate with the normalised weights
  \<open>w / sum(w)\<close>.
\<close>

theorem WeightedFedAvg_weights_not_normalised:
  assumes "clients_params \<noteq> []" and "identical_shape clients_params"
    and "length w = length clients_params" and "0 < sum_list w"
  shows "\<exists>A. WeightedFedAvg_aggregate_weights (map (\<lambda>x. x / sum_list w) w) clients_params = Inr A \<and>
             WeightedFedAvg_aggregate_weights w clients_params = Inr (map (map ((*) (sum_list w))) A)"
proof -
  have "WeightedFedAvg_aggregate_weights (map (\<lambda>x. x / sum_list w) w) clients_params =
      Inr (weighted_sum (map (\<lambda>x. x / sum_list w) w) clients_params)"
    using assms by (intro WeightedFedAvg_closed_form) simp_all
  moreover have "WeightedFedAvg_aggregate_weights w clients_params =
      Inr (weighted_sum w clients_params)"
    using assms by (intro WeightedFedAvg_closed_form) simp_all
  moreover have "weighted_sum w clients_params =
      map (map ((*) (sum_list w))) (weighted_sum (map (\<lambda>x. x / sum_list w) w) clients_params)"
    using assms by (intro weighted_sum_scale) simp_all
  ultimately show ?thesis by simp
qed

theorem WeightedFedAvg_weights_not_normalised_witness:
  "[[[1]], [[3 :: real]]] \<noteq> [] \<and> identical_shape [[[1]], [[3]]] \<and>
   length [2, 2 :: real] = length [[[1]], [[3 :: real]]] \<and> 0 < sum_list [2, 2 :: real] \<and>
   WeightedFedAvg_aggregate_weights [2 / 4, 2 / 4] [[[1]], [[3]]] = Inr [[2]] \<and>
   WeightedFedAvg_aggregate_weights [2, 2] [[[1]], [[3]]] = Inr [[4 * 2]]"
proof -
  have ne: "[[[1]], [[3 :: real]]] \<noteq> []" by simp
  have sh: "identical_shape [[[1]], [[3]]]" by (simp add: identical_shape_def)
  have ln: "length [2, 2 :: real] = length [[[1]], [[3 :: real]]]" by simp
  have ps: "0 < sum_list [2, 2 :: real]" by simp
  have n: "WeightedFedAvg_aggregate_weights [2 / 4, 2 / 4] [[[1]], [[3]]] = Inr [[2]]"
    by (simp add: WeightedFedAvg_aggregate_weights_def np_array_shape_def index_def
        np_sum_axis0_def np_add_def)
  have "WeightedFedAvg_aggregate_weights [2, 2] [[[1]], [[3]]] = Inr [[4 * 2]]"
    using WeightedFedAvg_weights_not_normalised [OF ne sh ln ps] n by simp
  then show ?thesis using ne sh ln ps n by simp
qed

text \<open>
  C2, as the claim states it, fails: with the weights \<open>[2, 2]\<close> on two nodes whose only
  entry is \<open>1\<close> the aggregate is \<open>4\<close>, with the normalised weights it is \<open>1\<close>.
\<close>

theorem WeightedFedAvg_normalisation_counterexample:
  "WeightedFedAvg_aggregate_weights [2, 2] [[[1]], [[1]]] = Inr [[4]] \<and>
   WeightedFedAvg_aggregate_weights [2 / (2 + 2), 2 / (2 + 2)] [[[1]], [[1]]] = Inr [[1]] \<and>
   WeightedFedAvg_aggregate_weights [2, 2] [[[1]], [[1]]] \<noteq>
     WeightedFedAvg_aggregate_weights [2 / (2 + 2), 2 / (2 + 2)] [[[1]], [[1]]]"
  by (simp add: WeightedFedAvg_aggregate_weights_def np_array_shape_def index_def
      np_sum_axis0_def np_add_def)

lemma identical_shape_iff:
  "identical_shape cs \<longleftrightarrow> (\<forall>c\<in>set cs. map length c = map length (hd cs))"
  by (simp add: identical_shape_def list_all_iff)

lemma identical_shape_permuted:
  assumes "mset cs' = mset cs" and "cs \<noteq> []" and "identical_shape cs"
  shows "cs' \<noteq> []" and "map length (hd cs') = map length (hd cs)" and "identical_shape cs'"
proof -
  have s: "set cs' = set cs" using assms(1) by (rule mset_eq_setD)
  have all: "map length c = map length (hd cs)" if "c \<in> set cs" for c
    using assms(3) that unfolding identical_shape_iff by blast
  show ne: "cs' \<noteq> []" using assms(1,2) by auto
  then have "hd cs' \<in> set cs" using s hd_in_set by blast
  then show h: "map length (hd cs') = map length (hd cs)" by (rule all)
  have "map length c = map length (hd cs')" if "c \<in> set cs'" for c
  proof -
    have "c \<in> set cs" using that s by simp
    then have "map length c = map length (hd cs)" by (rule all)
    then show ?thesis unfolding h .
  qed
  then show "identical_shape cs'" unfolding identical_shape_iff by blast
qed

lemma sum_list_permuted:
  fixes f :: "'a \<Rightarrow> real"
  assumes "mset cs' = mset cs"
  shows "(\<Sum>c\<leftarrow>cs'. f c) = (\<Sum>c\<leftarrow>cs. f c)"
proof -
  have "mset (map f cs') = mset (map f cs)" using assms by simp
  then have "sum_mset (mset (map f cs')) = sum_mset (mset (map f cs))" by simp
  then show ?thesis by (simp only: sum_mset_sum_list)
qed

lemma arithmetic_mean_permuted:
  assumes "mset cs' = mset cs" and "cs \<noteq> []" and "identical_shape cs"
  shows "arithmetic_mean cs' = arithmetic_mean cs"
proof -
  have h: "map length (hd cs') = map length (hd cs)"
    using assms by (rule identical_shape_permuted(2))
  then have hl: "length (hd cs') = length (hd cs)" by (rule map_eq_imp_length_eq)
  have bl: "length (hd cs' ! l) = length (hd cs ! l)" if "l < length (hd cs)" for l
  proof -
    have "map length (hd cs') ! l = map length (hd cs) ! l" using h by simp
    then show ?thesis using that hl by simp
  qed
  have n: "length cs' = length cs" using assms(1) by (rule mset_eq_length)
  have "map (\<lambda>k. (\<Sum>c\<leftarrow>cs'. c ! l ! k) / real (length cs')) [0..<length (hd cs' ! l)] =
        map (\<lambda>k. (\<Sum>c\<leftarrow>cs. c ! l ! k) / real (length cs)) [0..<length (hd cs ! l)]"
    if "l \<in> set [0..<length (hd cs)]" for l
    using that bl [of l] n sum_list_permuted [OF assms(1), of "\<lambda>c. c ! l ! _"] by simp
  then show ?thesis
    unfolding arithmetic_mean_def hl by (rule map_cong [OF refl])
qed

text \<open>
  C5. For every non-empty list of per-node parameter sets of identical shape and every
  permutation of the node order, Mean aggregation yields the aggregate of the unpermuted
  input (Mean aggregation takes no weights).
\<close>

theorem FedAvg_order_independent:
  assumes "mset permuted_params = mset clients_params"
    and "clients_params \<noteq> []" and "identical_shape clients_params"
  shows "FedAvg_aggregate_weights permuted_params = FedAvg_aggregate_weights clients_params"
proof -
  have "FedAvg_aggregate_weights permuted_params = Inr (arithmetic_mean permuted_params)"
    using identical_shape_permuted(1,3) [OF assms] by (rule FedAvg_closed_form)
  then show ?thesis
    by (simp only: arithmetic_mean_permuted [OF assms] FedAvg_closed_form [OF assms(2,3)])
qed

theorem FedAvg_order_independent_witness:
  "mset [[[3, 4], [5]], [[1, 2], [3 :: real]]] = mset [[[1, 2], [3]], [[3, 4], [5]]] \<and>
   [[[1, 2], [3]], [[3, 4], [5 :: real]]] \<noteq> [] \<and>
   identical_shape [[[1, 2], [3]], [[3, 4], [5]]] \<and>
   FedAvg_aggregate_weights [[[3, 4], [5]], [[1, 2], [3]]] = Inr [[2, 3], [4]] \<and>
   FedAvg_aggregate_weights [[[1, 2], [3]], [[3, 4], [5]]] = Inr [[2, 3], [4]]"
proof -
  have p: "mset [[[3, 4], [5]], [[1, 2], [3 :: real]]] = mset [[[1, 2], [3]], [[3, 4], [5]]]"
    by (simp add: add.commute)
  have ne: "[[[1, 2], [3]], [[3, 4], [5 :: real]]] \<noteq> []" by simp
  have sh: "identical_shape [[[1, 2], [3]], [[3, 4], [5]]]"
    by (simp add: identical_shape_def)
  have m: "FedAvg_aggregate_weights [[[1, 2], [3]], [[3, 4], [5]]] = Inr [[2, 3], [4]]"
    by (simp add: FedAvg_aggregate_weights_def np_array_shape_def index_def np_mean_axis0_def
        np_sum_axis0_def np_add_def)
  have "FedAvg_aggregate_weights [[[3, 4], [5]], [[1, 2], [3]]] = Inr [[2, 3], [4]]"
    using FedAvg_order_independent [OF p ne sh] m by simp
  then show ?thesis using p ne sh m by simp
qed

lemma np_add_lengths:
  assumes "np_add a b = Inr s"
  shows "(length a = length s \<or> length a = 1) \<and> (length b = length s \<or> length b = 1)"
  using assms by (auto simp: np_add_def split: if_splits)

lemma np_add_error: "np_add a b = Inl e \<Longrightarrow> e = ValueError"
  by (simp add: np_add_def split: if_splits)

lemma np_add_reduce_lengths:
  "np_add_reduce acc bs = Inr s \<Longrightarrow> b \<in> set (acc # bs) \<Longrightarrow> length b = length s \<or> length b = 1"
proof (induction bs arbitrary: acc b)
  case Nil
  then show ?case by simp
next
  case (Cons x xs)
  from Cons.prems(1) obtain s' where step: "np_add acc x = Inr s'"
    and rest: "np_add_reduce s' xs = Inr s"
    by (auto split: sum.splits)
  have s': "length s' = length s \<or> length s' = 1"
    using Cons.IH [OF rest, of s'] by simp
  consider "b = acc" | "b = x" | "b \<in> set xs" using Cons.prems(2) by auto
  then show ?case
  proof cases
    case 1
    then show ?thesis using np_add_lengths [OF step] s' by auto
  next
    case 2
    then show ?thesis using np_add_lengths [OF step] s' by auto
  next
    case 3
    then show ?thesis using Cons.IH [OF rest, of b] by simp
  qed
qed

lemma np_add_reduce_error: "np_add_reduce acc bs = Inl e \<Longrightarrow> e = ValueError"
proof (induction bs arbitrary: acc)
  case Nil
  then show ?case by simp
next
  case (Cons x xs)
  then show ?case
    by (cases "np_add acc x") (auto dest: np_add_error)
qed

lemma np_mean_axis0_error: "np_mean_axis0 col = Inl e \<Longrightarrow> e = ValueError"
  by (cases col) (auto simp: np_mean_axis0_def np_sum_axis0_def split: sum.splits
      dest: np_add_reduce_error)

lemma np_mean_axis0_incompatible:
  assumes "a \<in> set col" and "b \<in> set col"
    and "length a \<noteq> length b" and "length a \<noteq> 1" and "length b \<noteq> 1"
  shows "np_mean_axis0 col = Inl ValueError"
proof (cases "np_mean_axis0 col")
  case (Inl e)
  then show ?thesis using np_mean_axis0_error by blast
next
  case (Inr m)
  obtain x xs where col: "col = x # xs" using assms(1) by (cases col) auto
  from Inr obtain s where s: "np_add_reduce x xs = Inr s"
    by (auto simp: np_mean_axis0_def np_sum_axis0_def col split: sum.splits)
  have "length a = length s" "length b = length s"
    using np_add_reduce_lengths [OF s] assms(1,2,4,5) col by blast+
  then show ?thesis using assms(3) by simp
qed

lemma collect_error:
  assumes "r \<in> set rs" and "r = Inl e" and "\<And>r' e'. r' \<in> set rs \<Longrightarrow> r' = Inl e' \<Longrightarrow> e' = e"
  shows "collect rs = Inl e"
  using assms
proof (induction rs)
  case Nil
  then show ?case by simp
next
  case (Cons x xs)
  show ?case
  proof (cases x)
    case (Inl e')
    then show ?thesis using Cons.prems(3) [of x e'] by simp
  next
    case (Inr v)
    then have "r \<in> set xs" using Cons.prems(1,2) by auto
    then have "collect xs = Inl e" using Cons.prems(2,3) by (intro Cons.IH) auto
    then show ?thesis using Inr by simp
  qed
qed

text \<open>
  C4, as amended. \<open>aggregate_weights\<close> has no shape check and no \<open>ShapeMismatch\<close> error:
  what happens on disagreeing shapes is what the array library does. When the list is
  empty or the nodes disagree on the number of blocks, the call raises \<open>IndexError\<close> and
  produces no aggregate. When the numbers of blocks agree and two nodes hold, at some
  layer, blocks of different dimensions, neither of dimension one, the call raises
  \<open>ValueError\<close> and produces no aggregate.
\<close>

theorem FedAvg_shape_disagreement:
  "(clients_params = [] \<or> (\<exists>c\<in>set clients_params. length c \<noteq> length (hd clients_params))
      \<longrightarrow> FedAvg_aggregate_weights clients_params = Inl IndexError) \<and>
   ((\<forall>c\<in>set clients_params. length c = length (hd clients_params)) \<and>
    (\<exists>a\<in>set clients_params. \<exists>b\<in>set clients_params. \<exists>l<length (hd clients_params).
        length (a ! l) \<noteq> length (b ! l) \<and> length (a ! l) \<noteq> 1 \<and> length (b ! l) \<noteq> 1)
      \<longrightarrow> FedAvg_aggregate_weights clients_params = Inl ValueError)"
proof (intro conjI impI)
  assume "clients_params = [] \<or> (\<exists>c\<in>set clients_params. length c \<noteq> length (hd clients_params))"
  then have "\<not> (clients_params \<noteq> [] \<and>
      list_all (\<lambda>c. length c = length (hd clients_params)) clients_params)"
    unfolding list_all_iff by blast
  then have "np_array_shape clients_params = [length clients_params]"
    unfolding np_array_shape_def by (rule if_not_P)
  then show "FedAvg_aggregate_weights clients_params = Inl IndexError"
    by (simp add: FedAvg_aggregate_weights_def index_def)
next
  assume a: "(\<forall>c\<in>set clients_params. length c = length (hd clients_params)) \<and>
    (\<exists>a\<in>set clients_params. \<exists>b\<in>set clients_params. \<exists>l<length (hd clients_params).
        length (a ! l) \<noteq> length (b ! l) \<and> length (a ! l) \<noteq> 1 \<and> length (b ! l) \<noteq> 1)"
  then obtain x y l where xy: "x \<in> set clients_params" "y \<in> set clients_params"
    and l: "l < length (hd clients_params)"
    and d: "length (x ! l) \<noteq> length (y ! l)" "length (x ! l) \<noteq> 1" "length (y ! l) \<noteq> 1"
    by blast
  have ne: "clients_params \<noteq> []" using xy(1) by auto
  have "clients_params \<noteq> [] \<and>
      list_all (\<lambda>c. length c = length (hd clients_params)) clients_params"
    unfolding list_all_iff using a ne by blast
  then have shape:
    "np_array_shape clients_params = [length clients_params, length (hd clients_params)]"
    unfolding np_array_shape_def by (rule if_P)
  let ?f = "\<lambda>layer. np_mean_axis0 (map (\<lambda>c. c ! layer) clients_params)"
  have xl: "x ! l \<in> set (map (\<lambda>c. c ! l) clients_params)" using xy(1) by simp
  have yl: "y ! l \<in> set (map (\<lambda>c. c ! l) clients_params)" using xy(2) by simp
  have fl: "?f l = Inl ValueError"
    using xl yl d by (rule np_mean_axis0_incompatible)
  have mem: "?f l \<in> set (map ?f [0..<length (hd clients_params)])"
    using l by simp
  have errs: "e' = ValueError"
    if "r' \<in> set (map ?f [0..<length (hd clients_params)])" and "r' = Inl e'" for r' e'
  proof -
    from that obtain j where "?f j = Inl e'" by auto
    then show ?thesis by (rule np_mean_axis0_error)
  qed
  have "collect (map ?f [0..<length (hd clients_params)]) = Inl ValueError"
    using mem fl errs by (rule collect_error)
  then show "FedAvg_aggregate_weights clients_params = Inl ValueError"
    by (simp add: FedAvg_aggregate_weights_def shape index_def)
qed

theorem FedAvg_shape_disagreement_witness:
  "(\<exists>c\<in>set [[[1]], [[1], [2 :: real]]]. length c \<noteq> length (hd [[[1]], [[1], [2 :: real]]])) \<and>
   FedAvg_aggregate_weights [[[1]], [[1], [2]]] = Inl IndexError \<and>
   (\<exists>a\<in>set [[[1, 2]], [[1, 2, 3 :: real]]]. \<exists>b\<in>set [[[1, 2]], [[1, 2, 3 :: real]]].
      \<exists>l<length (hd [[[1, 2]], [[1, 2, 3 :: real]]]).
        length (a ! l) \<noteq> length (b ! l) \<and> length (a ! l) \<noteq> 1 \<and> length (b ! l) \<noteq> 1) \<and>
   FedAvg_aggregate_weights [[[1, 2]], [[1, 2, 3]]] = Inl ValueError"
proof -
  have h1: "\<exists>c\<in>set [[[1]], [[1], [2 :: real]]]. length c \<noteq> length (hd [[[1]], [[1], [2 :: real]]])"
    by simp
  have h2: "\<forall>c\<in>set [[[1, 2]], [[1, 2, 3 :: real]]]. length c = length (hd [[[1, 2]], [[1, 2, 3 :: real]]])"
    by simp
  have h3: "\<exists>a\<in>set [[[1, 2]], [[1, 2, 3 :: real]]]. \<exists>b\<in>set [[[1, 2]], [[1, 2, 3 :: real]]].
      \<exists>l<length (hd [[[1, 2]], [[1, 2, 3 :: real]]]).
        length (a ! l) \<noteq> length (b ! l) \<and> length (a ! l) \<noteq> 1 \<and> length (b ! l) \<noteq> 1"
    by simp
  have r1: "FedAvg_aggregate_weights [[[1]], [[1], [2]]] = Inl IndexError"
    using FedAvg_shape_disagreement [of "[[[1]], [[1], [2]]]"] h1 by blast
  have r2: "FedAvg_aggregate_weights [[[1, 2]], [[1, 2, 3]]] = Inl ValueError"
    using FedAvg_shape_disagreement [of "[[[1, 2]], [[1, 2, 3]]]"] h2 h3 by blast
  show ?thesis using h1 h3 r1 r2 by blast
qed

text \<open>
  C4, as the claim states it, fails: two nodes whose only blocks have dimensions one and
  three disagree in shape, and the call returns an aggregate (the block of dimension one is
  broadcast).
\<close>

theorem FedAvg_shape_mismatch_counterexample:
  "map length [[1 :: real]] \<noteq> map length [[1, 2, 3 :: real]] \<and>
   \<not> identical_shape [[[1]], [[1, 2, 3]]] \<and>
   FedAvg_aggregate_weights [[[1]], [[1, 2, 3]]] = Inr [[1, 3 / 2, 2]]"
  by (simp add: identical_shape_def FedAvg_aggregate_weights_def np_array_shape_def index_def
      np_mean_axis0_def np_sum_axis0_def np_add_def)

section \<open>Properties of cluster aggregation\<close>

lemma np_concatenate_uniform:
  assumes "cs \<noteq> []" and "\<forall>p\<in>set (concat cs). \<forall>q\<in>set (concat cs). length p = length q"
  shows "np_concatenate cs = Inr (concat cs)"
proof -
  have "list_all (\<lambda>p. length p = length (hd (concat cs))) (concat cs)"
  proof (cases "concat cs")
    case Nil
    show ?thesis unfolding Nil by simp
  next
    case (Cons x xs)
    have "hd (concat cs) \<in> set (concat cs)" unfolding Cons by simp
    then show ?thesis unfolding list_all_iff using assms(2) by blast
  qed
  then show ?thesis using assms(1) by (simp add: np_concatenate_def)
qed

text \<open>
  C6. For every non-empty list of per-node centroid sets (all centroids of one dimension),
  ClusterConsensus aggregation concatenates the nodes' centroid arrays into one point set,
  fits a \<open>k-means++\<close> estimator on it whose number of clusters is the number of centroids
  of the first node's set, and returns the fitted estimator's cluster centres (or the
  error the fit raises).
\<close>

theorem ClusterFedAvg_aggregate_weights_reclusters:
  assumes "clients_params \<noteq> []"
    and "\<forall>p\<in>set (concat clients_params). \<forall>q\<in>set (concat clients_params). length p = length q"
  shows "ClusterFedAvg_aggregate_weights fit clients_params g =
           (case fit \<lparr>n_clusters = length (hd clients_params), init = ''k-means++'',
                      random_state = None, cluster_centers = []\<rparr>
                     (concat clients_params) g of
              (Inl e, g') \<Rightarrow> (Inl e, g')
            | (Inr fitted, g') \<Rightarrow> (Inr (cluster_centers fitted), g'))"
  by (simp add: ClusterFedAvg_aggregate_weights_def ClusterFedAvg_model_aggregator_def
      KMeans_init_def np_concatenate_uniform [OF assms])

text \<open>
  The theorem at two nodes with two centroids each, with the library's answer on these
  four points (two clusters: the means \<open>0.5\<close> and \<open>2.5\<close>) given as a table that refuses
  any other estimator or point set.
\<close>

theorem ClusterFedAvg_aggregate_weights_reclusters_witness:
  "[[[0], [1]], [[2], [3 :: real]]] \<noteq> [] \<and>
   ClusterFedAvg_aggregate_weights
     (\<lambda>est X g.
        (if n_clusters est = 2 \<and> init est = ''k-means++'' \<and> X = [[0], [1], [2], [3]]
         then Inr (est\<lparr>cluster_centers := [[1 / 2], [5 / 2]]\<rparr>) else Inl ValueError,
         Suc g))
     [[[0], [1]], [[2], [3]]] (1 :: nat) =
     (Inr [[1 / 2], [5 / 2]], 2)"
proof -
  have ne: "[[[0], [1]], [[2], [3 :: real]]] \<noteq> []" by simp
  have un: "\<forall>p\<in>set (concat [[[0], [1]], [[2], [3 :: real]]]).
      \<forall>q\<in>set (concat [[[0], [1]], [[2], [3 :: real]]]). length p = length q"
    by simp
  have "ClusterFedAvg_aggregate_weights
     (\<lambda>est X g.
        (if n_clusters est = 2 \<and> init est = ''k-means++'' \<and> X = [[0], [1], [2], [3]]
         then Inr (est\<lparr>cluster_centers := [[1 / 2], [5 / 2]]\<rparr>) else Inl ValueError,
         Suc g))
     [[[0], [1]], [[2], [3]]] (1 :: nat) =
     (Inr [[1 / 2], [5 / 2]], 2)"
    unfolding ClusterFedAvg_aggregate_weights_reclusters [OF ne un]
    by simp
  then show ?thesis using ne by blast
qed

text \<open>
  C7, as amended. ClusterConsensus aggregation takes no seed parameter: its only argument
  is the list of centroid sets. For every non-empty list of centroid sets (all centroids
  of one dimension) the re-clustering estimator is built with \<open>random_state\<close> unset, the
  fit is run in the state of the global random generator at the call, and the call returns
  the fitted centres (or the fit's error) and leaves the generator in the state the fit
  leaves. The result is reproducible as far as the library's fit is from that ambient
  state.
\<close>

theorem ClusterFedAvg_unseeded:
  assumes "clients_params \<noteq> []"
    and "\<forall>p\<in>set (concat clients_params). \<forall>q\<in>set (concat clients_params). length p = length q"
  shows "random_state (ClusterFedAvg_model_aggregator clients_params) = None \<and>
         fst (ClusterFedAvg_aggregate_weights fit clients_params g) =
           map_sum id cluster_centers
             (fst (fit (ClusterFedAvg_model_aggregator clients_params) (concat clients_params) g)) \<and>
         snd (ClusterFedAvg_aggregate_weights fit clients_params g) =
           snd (fit (ClusterFedAvg_model_aggregator clients_params) (concat clients_params) g)"
proof -
  obtain r g' where f:
    "fit (ClusterFedAvg_model_aggregator clients_params) (concat clients_params) g = (r, g')"
    by (cases "fit (ClusterFedAvg_model_aggregator clients_params) (concat clients_params) g")
  have "ClusterFedAvg_aggregate_weights fit clients_params g = (map_sum id cluster_centers r, g')"
    using f by (cases r)
      (simp_all add: ClusterFedAvg_aggregate_weights_def np_concatenate_uniform [OF assms])
  then show ?thesis
    using f by (simp add: ClusterFedAvg_model_aggregator_def KMeans_init_def)
qed

theorem ClusterFedAvg_unseeded_witness:
  "[[[0], [1]], [[2], [3 :: real]]] \<noteq> [] \<and>
   random_state (ClusterFedAvg_model_aggregator [[[0], [1]], [[2], [3]]]) = None \<and>
   fst (ClusterFedAvg_aggregate_weights
     (\<lambda>est X g.
        (if n_clusters est = 2 \<and> init est = ''k-means++'' \<and> X = [[0], [1], [2], [3]]
         then Inr (est\<lparr>cluster_centers := [[1 / 2], [5 / 2]]\<rparr>) else Inl ValueError,
         Suc g))
     [[[0], [1]], [[2], [3]]] (5 :: nat)) = Inr [[1 / 2], [5 / 2]] \<and>
   snd (ClusterFedAvg_aggregate_weights
     (\<lambda>est X g.
        (if n_clusters est = 2 \<and> init est = ''k-means++'' \<and> X = [[0], [1], [2], [3]]
         then Inr (est\<lparr>cluster_centers := [[1 / 2], [5 / 2]]\<rparr>) else Inl ValueError,
         Suc g))
     [[[0], [1]], [[2], [3]]] (5 :: nat)) = 6"
proof -
  have ne: "[[[0], [1]], [[2], [3 :: real]]] \<noteq> []" by simp
  have un: "\<forall>p\<in>set (concat [[[0], [1]], [[2], [3 :: real]]]).
      \<forall>q\<in>set (concat [[[0], [1]], [[2], [3 :: real]]]). length p = length q"
    by simp
  note th = ClusterFedAvg_unseeded [OF ne un, of
     "(\<lambda>est X g.
        (if n_clusters est = 2 \<and> init est = ''k-means++'' \<and> X = [[0], [1], [2], [3]]
         then Inr (est\<lparr>cluster_centers := [[1 / 2], [5 / 2]]\<rparr>) else Inl ValueError,
         Suc g))" "5 :: nat"]
  have est: "ClusterFedAvg_model_aggregator [[[0], [1]], [[2], [3 :: real]]] =
      \<lparr>n_clusters = 2, init = ''k-means++'', random_state = None, cluster_centers = []\<rparr>"
    by (simp add: ClusterFedAvg_model_aggregator_def KMeans_init_def)
  have a: "random_state (ClusterFedAvg_model_aggregator [[[0], [1]], [[2], [3]]]) = None"
    by (rule th [THEN conjunct1])
  have b: "fst (ClusterFedAvg_aggregate_weights
     (\<lambda>est X g.
        (if n_clusters est = 2 \<and> init est = ''k-means++'' \<and> X = [[0], [1], [2], [3]]
         then Inr (est\<lparr>cluster_centers := [[1 / 2], [5 / 2]]\<rparr>) else Inl ValueError,
         Suc g))
     [[[0], [1]], [[2], [3]]] (5 :: nat)) = Inr [[1 / 2], [5 / 2]]"
    using th [THEN conjunct2, THEN conjunct1] unfolding est by simp
  have c: "snd (ClusterFedAvg_aggregate_weights
     (\<lambda>est X g.
        (if n_clusters est = 2 \<and> init est = ''k-means++'' \<and> X = [[0], [1], [2], [3]]
         then Inr (est\<lparr>cluster_centers := [[1 / 2], [5 / 2]]\<rparr>) else Inl ValueError,
         Suc g))
     [[[0], [1]], [[2], [3]]] (5 :: nat)) = 6"
    using th [THEN conjunct2, THEN conjunct2] unfolding est by simp
  show ?thesis using ne a b c by blast
qed

text \<open>
  C7, as the claim states it, fails: the method has no seed argument, and on two nodes
  with two centroids each the estimator it builds and fits carries no seed
  (\<open>random_state\<close> is \<open>None\<close>), so the library initialises it from the global generator.
\<close>

theorem ClusterFedAvg_seed_counterexample:
  "ClusterFedAvg_model_aggregator [[[0], [1]], [[2], [3]]] =
     \<lparr>n_clusters = 2, init = ''k-means++'', random_state = None, cluster_centers = []\<rparr> \<and>
   random_state (ClusterFedAvg_model_aggregator [[[0], [1]], [[2], [3]]]) = None"
  by (simp add: ClusterFedAvg_model_aggregator_def KMeans_init_def)

section \<open>Properties of the poisoning attack\<close>

lemma randbelow_less: "0 < n \<Longrightarrow> fst (randbelow n g) < n"
  by (simp add: randbelow_def)

lemma exchange_Values_mset:
  "i < length x \<Longrightarrow> j < length x \<Longrightarrow>
   \<exists>y. exchange i j (Values x) = Values y \<and> mset y = mset x"
  using mset_swap [of j x i] by simp

lemma shuffle_loop_mset:
  "m < length x \<or> m = 0 \<Longrightarrow>
   \<exists>y. fst (shuffle_loop m (Values x) g) = Values y \<and> mset y = mset x"
proof (induction m arbitrary: x g)
  case 0
  then show ?case by simp
next
  case (Suc m)
  then have i: "Suc m < length x" by simp
  obtain j g' where r: "randbelow (Suc (Suc m)) g = (j, g')" by (cases "randbelow (Suc (Suc m)) g")
  have "j < Suc (Suc m)" using randbelow_less [of "Suc (Suc m)" g] r by simp
  then have j: "j < length x" using i by simp
  obtain x' where x': "exchange (Suc m) j (Values x) = Values x'" and sw: "mset x' = mset x"
    using exchange_Values_mset [OF i j] by blast
  have "length x' = length x" using sw by (rule mset_eq_length)
  then have "m < length x' \<or> m = 0" using i by simp
  then obtain y where "fst (shuffle_loop m (Values x') g') = Values y" and "mset y = mset x'"
    using Suc.IH [of x' g'] by blast
  then show ?case using r x' sw by simp
qed

lemma random_shuffle_mset:
  "\<exists>y. fst (random_shuffle (Values x) g) = Values y \<and> mset y = mset x"
proof -
  have "length x - 1 < length x \<or> length x - 1 = 0" by (cases x) simp_all
  then show ?thesis unfolding random_shuffle_def items.simps by (rule shuffle_loop_mset)
qed

lemma ShuffleNode_apply_fst:
  "fst (ShuffleNode_apply ld g) = ld\<lparr>label := fst (random_shuffle (label ld) g)\<rparr>"
  by (simp add: ShuffleNode_apply_def split: prod.splits)

text \<open>
  On a label sequence whose items are read as values (a list or a one-dimensional array),
  \<open>ShuffleNode.apply\<close> leaves a permutation of the labels, for every state of the random
  generator, and the feature data is unchanged.
\<close>

lemma ShuffleNode_apply_permutes_values:
  assumes "label ld = Values x"
  shows "\<exists>y. label (fst (ShuffleNode_apply ld g)) = Values y \<and> mset y = mset x \<and>
             length y = length x \<and> data (fst (ShuffleNode_apply ld g)) = data ld"
proof -
  obtain y where y: "fst (random_shuffle (Values x) g) = Values y" and m: "mset y = mset x"
    using random_shuffle_mset [of x g] by blast
  have "length y = length x" using m by (rule mset_eq_length)
  then show ?thesis using y m assms by (simp add: ShuffleNode_apply_fst)
qed

lemma ShuffleNode_apply_data: "data (fst (ShuffleNode_apply ld g)) = data ld"
  by (simp add: ShuffleNode_apply_fst)

text \<open>
  C10. \<open>ShuffleNode.apply\<close> is to replace the node's label sequence with a permutation of
  it, preserving the multiset of labels and leaving the feature data unchanged. On one-hot
  labels (a two-dimensional array) it does not: with the two labels \<open>[1, 0]\<close> and
  \<open>[0, 1]\<close> and a generator whose first draw is \<open>0\<close>, the node is left with the label
  \<open>[1, 0]\<close> twice. The feature data is unchanged.
\<close>

theorem ShuffleNode_apply_duplicates_rows:
  "label (fst (ShuffleNode_apply \<lparr>data = ''x'', label = Rows [[1, 0], [0, 1 :: nat]]\<rparr> (\<lambda>k. k))) =
     Rows [[1, 0], [1, 0]] \<and>
   mset [[1, 0], [1, 0 :: nat]] \<noteq> mset [[1, 0], [0, 1]] \<and>
   data (fst (ShuffleNode_apply \<lparr>data = ''x'', label = Rows [[1, 0], [0, 1 :: nat]]\<rparr> (\<lambda>k. k))) =
     ''x''"
  by (simp add: ShuffleNode_apply_def random_shuffle_def randbelow_def)

lemma apply_data_transformation_fst:
  "fst (apply_data_transformation t node s) = node\<lparr>private_data := fst (t (private_data node) s)\<rparr>"
  by (simp add: apply_data_transformation_def split: prod.splits)

lemma apply_federated_transformation_length:
  "length (fst (apply_federated_transformation t nodes s)) = length nodes"
proof (induction nodes arbitrary: s)
  case Nil
  then show ?case by simp
next
  case (Cons node nodes)
  obtain node' s1 where a: "apply_data_transformation t node s = (node', s1)"
    by (cases "apply_data_transformation t node s")
  obtain nodes' s2 where b: "apply_federated_transformation t nodes s1 = (nodes', s2)"
    by (cases "apply_federated_transformation t nodes s1")
  have "length nodes' = length nodes" using Cons.IH [of s1] b by simp
  then show ?case using a b by simp
qed

lemma apply_federated_transformation_nth:
  "i < length nodes \<Longrightarrow>
   \<exists>s'. fst (apply_federated_transformation t nodes s) ! i =
          fst (apply_data_transformation t (nodes ! i) s')"
proof (induction nodes arbitrary: s i)
  case Nil
  then show ?case by simp
next
  case (Cons node nodes)
  obtain node' s1 where a: "apply_data_transformation t node s = (node', s1)"
    by (cases "apply_data_transformation t node s")
  obtain nodes' s2 where b: "apply_federated_transformation t nodes s1 = (nodes', s2)"
    by (cases "apply_federated_transformation t nodes s1")
  show ?case
  proof (cases i)
    case 0
    have "fst (apply_federated_transformation t (node # nodes) s) ! 0 =
        fst (apply_data_transformation t node s)"
      using a b by simp
    then show ?thesis using 0 by auto
  next
    case (Suc k)
    then have "k < length nodes" using Cons.prems by simp
    then obtain s' where "fst (apply_federated_transformation t nodes s1) ! k =
        fst (apply_data_transformation t (nodes ! k) s')"
      using Cons.IH by blast
    then have "fst (apply_federated_transformation t (node # nodes) s) ! Suc k =
        fst (apply_data_transformation t ((node # nodes) ! Suc k) s')"
      using a b by simp
    then show ?thesis using Suc by blast
  qed
qed

text \<open>
  C8. Applying a transformation \<open>t\<close> to a node calls \<open>t\<close> on the node's private labeled
  data and stores the result in the node: afterwards the node holds the transformed data,
  its access filter is the one it had, and a query is answered by that filter from the
  transformed data (by the transformed data itself under the unprotected filter). Applied
  to a federation, every node holds the result of \<open>t\<close> on its own data.
\<close>

theorem apply_data_transformation_mutates:
  "private_data (fst (apply_data_transformation t node s)) = fst (t (private_data node) s) \<and>
   access_filter (fst (apply_data_transformation t node s)) = access_filter node \<and>
   query q (fst (apply_data_transformation t node s)) =
     access_filter node q (fst (t (private_data node) s)) \<and>
   (access_filter node = unprotected \<longrightarrow>
      query q (fst (apply_data_transformation t node s)) = Ok (fst (t (private_data node) s))) \<and>
   length (fst (apply_federated_transformation t nodes s)) = length nodes \<and>
   (\<forall>i<length nodes. \<exists>s'.
      private_data (fst (apply_federated_transformation t nodes s) ! i) =
        fst (t (private_data (nodes ! i)) s') \<and>
      access_filter (fst (apply_federated_transformation t nodes s) ! i) =
        access_filter (nodes ! i))"
proof -
  have fed: "\<exists>s'. private_data (fst (apply_federated_transformation t nodes s) ! i) =
        fst (t (private_data (nodes ! i)) s') \<and>
      access_filter (fst (apply_federated_transformation t nodes s) ! i) =
        access_filter (nodes ! i)" if i: "i < length nodes" for i
  proof -
    obtain s' where "fst (apply_federated_transformation t nodes s) ! i =
          fst (apply_data_transformation t (nodes ! i) s')"
      using apply_federated_transformation_nth [OF i, of t s] by blast
    then show ?thesis by (auto simp: apply_data_transformation_fst)
  qed
  show ?thesis
    using fed
    by (simp add: apply_data_transformation_fst query_def unprotected_def
        apply_federated_transformation_length)
qed

theorem apply_data_transformation_mutates_witness:
  "query ()
     (fst (apply_data_transformation ShuffleNode_apply
        \<lparr>private_data = \<lparr>data = ''x'', label = Values [1, 2, 3 :: nat]\<rparr>, access_filter = unprotected\<rparr>
        (\<lambda>k. k))) =
   Ok \<lparr>data = ''x'', label = Values [3, 2, 1]\<rparr> \<and>
   (\<exists>s'. private_data
           (fst (apply_federated_transformation ShuffleNode_apply
              [\<lparr>private_data = \<lparr>data = ''x'', label = Values [1, 2, 3 :: nat]\<rparr>,
                 access_filter = unprotected :: (unit, (string, nat) labeled_data) privacy_filter\<rparr>]
              (\<lambda>k. k)) ! 0) =
         fst (ShuffleNode_apply \<lparr>data = ''x'', label = Values [1, 2, 3]\<rparr> s'))"
proof -
  let ?ld = "\<lparr>data = ''x'', label = Values [1, 2, 3 :: nat]\<rparr>"
  let ?node = "\<lparr>private_data = ?ld,
      access_filter = unprotected :: (unit, (string, nat) labeled_data) privacy_filter\<rparr>"
  note th = apply_data_transformation_mutates [of ShuffleNode_apply ?node "\<lambda>k. k" "()" "[?node]"]
  have sh: "fst (ShuffleNode_apply ?ld (\<lambda>k. k)) = \<lparr>data = ''x'', label = Values [3, 2, 1]\<rparr>"
    by (simp add: ShuffleNode_apply_def random_shuffle_def randbelow_def numeral_2_eq_2)
  have pd: "private_data ?node = ?ld" by simp
  have af: "access_filter ?node = unprotected" by simp
  have "query () (fst (apply_data_transformation ShuffleNode_apply ?node (\<lambda>k. k))) =
      Ok (fst (ShuffleNode_apply (private_data ?node) (\<lambda>k. k)))"
    using af
    by (rule th [THEN conjunct2, THEN conjunct2, THEN conjunct2, THEN conjunct1, THEN mp])
  then have one: "query () (fst (apply_data_transformation ShuffleNode_apply ?node (\<lambda>k. k))) =
      Ok \<lparr>data = ''x'', label = Values [3, 2, 1]\<rparr>"
    unfolding pd sh .
  have i: "0 < length [?node]" by simp
  have "\<exists>s'. private_data
           (fst (apply_federated_transformation ShuffleNode_apply [?node] (\<lambda>k. k)) ! 0) =
          fst (ShuffleNode_apply (private_data ([?node] ! 0)) s') \<and>
        access_filter (fst (apply_federated_transformation ShuffleNode_apply [?node] (\<lambda>k. k)) ! 0) =
          access_filter ([?node] ! 0)"
    using i
    by (rule th [THEN conjunct2, THEN conjunct2, THEN conjunct2, THEN conjunct2,
          THEN conjunct2, THEN spec, THEN mp])
  then obtain s' where "private_data
           (fst (apply_federated_transformation ShuffleNode_apply [?node] (\<lambda>k. k)) ! 0) =
          fst (ShuffleNode_apply (private_data ([?node] ! 0)) s')"
    by blast
  then have "private_data
           (fst (apply_federated_transformation ShuffleNode_apply [?node] (\<lambda>k. k)) ! 0) =
          fst (ShuffleNode_apply ?ld s')"
    by simp
  then show ?thesis using one by blast
qed








lemma random_sample_refuses:
  "\<not> (0 \<le> k \<and> k \<le> int (length population)) \<Longrightarrow>
   random_sample_pool population k g = (Inl ValueError, g)"
  by (simp add: random_sample_pool_def)




end
